theory Spec2Isabelle
  imports Main "HOL-Library.Word"
begin

section \<open>Upload ingestion of element-ts/hydrogen\<close>

text \<open>
  The development embeds \<^verbatim>\<open>src/ts/HUploadManager.ts\<close> and \<^verbatim>\<open>src/ts/HRequest.ts\<close>.
  A \<^verbatim>\<open>Buffer\<close> is a list of bytes, the header mapping and the file system are maps,
  the promise returned by \<^verbatim>\<open>handleRequest\<close> is a three-valued state, and the
  \<^verbatim>\<open>"data"\<close> and \<^verbatim>\<open>"end"\<close> listeners are step functions on an explicit ingestion
  state. The source registers no other listener, so a request stream is the list of the
  chunks it delivers, followed by its end. JavaScript numbers are modelled as exact
  integers, which agrees with the source for byte counts and limits below \<open>2 ^ 53\<close>.
\<close>

subsection \<open>Errors\<close>

type_synonym Buffer = "8 word list"

text \<open>
  Modelled from the spec: the class \<^verbatim>\<open>HError\<close> (\<^verbatim>\<open>./HError\<close>) is not among the sources.
  The spec says that each error carries an HTTP status code and a human-readable message and
  is meant to be surfaced to the client; \<open>mkHError c m\<close> is the value of the builder chain
  \<^verbatim>\<open>HError.init().code(c).msg(m).show()\<close>.
\<close>

record HError =
  code :: nat
  msg :: string
  shown :: bool

definition mkHError :: "nat \<Rightarrow> string \<Rightarrow> HError" where
  "mkHError c m = \<lparr>code = c, msg = m, shown = True\<rparr>"

subsection \<open>Platform functions used by the source\<close>

text \<open>Template literals print a number in decimal.\<close>

fun showNat :: "nat \<Rightarrow> string" where
  "showNat n =
     (if n < 10 then [''0123456789'' ! n]
      else showNat (n div 10) @ [''0123456789'' ! (n mod 10)])"

declare showNat.simps [simp del]

definition showInt :: "int \<Rightarrow> string" where
  "showInt i = (if i < 0 then CHR ''-'' # showNat (nat (- i)) else showNat (nat i))"

text \<open>\<^verbatim>\<open>Array.prototype.join\<close>.\<close>

fun join :: "string \<Rightarrow> string list \<Rightarrow> string" where
  "join sep [] = []"
| "join sep [x] = x"
| "join sep (x # y # ys) = x @ sep @ join sep (y # ys)"

text \<open>
  \<^verbatim>\<open>parseInt\<close> with no radix: leading white space is dropped, then an optional sign, then
  an optional \<^verbatim>\<open>0x\<close> prefix that selects base 16, then the longest prefix of digits of the
  base. The result is \<open>None\<close> for \<^verbatim>\<open>NaN\<close> (no digit at all).
\<close>

definition isWhiteSpace :: "char \<Rightarrow> bool" where
  "isWhiteSpace c =
     (c \<in> set [CHR 0x09, CHR 0x0A, CHR 0x0B, CHR 0x0C, CHR 0x0D, CHR 0x20, CHR 0xA0])"

definition digitValue :: "char \<Rightarrow> nat" where
  "digitValue c =
     (let n = of_char c :: nat in
      if 48 \<le> n \<and> n \<le> 57 then n - 48
      else if 97 \<le> n \<and> n \<le> 122 then n - 87
      else if 65 \<le> n \<and> n \<le> 90 then n - 55
      else 36)"

definition parseInt :: "string \<Rightarrow> int option" where
  "parseInt s =
     (let t = dropWhile isWhiteSpace s;
          neg = (case t of [] \<Rightarrow> False | c # _ \<Rightarrow> c = CHR ''-'');
          u = (case t of [] \<Rightarrow> []
                 | c # r \<Rightarrow> if c = CHR ''-'' \<or> c = CHR ''+'' then r else t);
          hex = (case u of a # b # _ \<Rightarrow> a = CHR ''0'' \<and> (b = CHR ''x'' \<or> b = CHR ''X'')
                   | _ \<Rightarrow> False);
          radix = (if hex then 16 else 10 :: nat);
          v = (if hex then drop 2 u else u);
          ds = takeWhile (\<lambda>c. digitValue c < radix) v;
          n = foldl (\<lambda>a c. a * radix + digitValue c) 0 ds
      in if ds = [] then None else Some (if neg then - int n else int n))"

text \<open>\<^verbatim>\<open>Buffer.toString("hex")\<close>: two lower-case hexadecimal digits for each byte.\<close>

definition hexDigit :: "nat \<Rightarrow> char" where
  "hexDigit n = ''0123456789abcdef'' ! (n mod 16)"

definition toHex :: "Buffer \<Rightarrow> string" where
  "toHex b = concat (map (\<lambda>x. [hexDigit (unat x div 16), hexDigit (unat x mod 16)]) b)"

subsection \<open>HRequest\<close>

text \<open>
  The fields of \<^verbatim>\<open>HRequest\<close> that the ingestion and the payload decoding read or write.
  The type \<open>'o\<close> is the type of the values \<^verbatim>\<open>JSON.parse\<close> returns; \<open>None\<close> is
  \<^verbatim>\<open>undefined\<close>. The live stream \<^verbatim>\<open>req\<close> is passed to the ingestion as the list of
  chunks it delivers; the field \<^verbatim>\<open>method\<close> plays no part in either.
\<close>

record 'o HRequest =
  headers :: "string \<rightharpoonup> string"
  url :: string
  payload :: "Buffer option"
  payloadSteamPath :: "string option"
  payloadObject :: "'o option"

text \<open>The constructor: \<^verbatim>\<open>req.url || "/"\<close> replaces a missing or empty URL.\<close>

definition newHRequest :: "(string \<rightharpoonup> string) \<Rightarrow> string option \<Rightarrow> 'o HRequest" where
  "newHRequest hs u =
     \<lparr>headers = hs,
      url = (case u of None \<Rightarrow> ''/'' | Some v \<Rightarrow> if v = [] then ''/'' else v),
      payload = None, payloadSteamPath = None, payloadObject = None\<rparr>"

definition setPayload :: "Buffer \<Rightarrow> 'o HRequest \<Rightarrow> 'o HRequest" where
  "setPayload p r = r\<lparr>payload := Some p\<rparr>"

definition setPayloadStreamPath :: "string \<Rightarrow> 'o HRequest \<Rightarrow> 'o HRequest" where
  "setPayloadStreamPath v r = r\<lparr>payloadSteamPath := Some v\<rparr>"

text \<open>
  \<^verbatim>\<open>fetchPayload\<close>. The two calls inside the \<^verbatim>\<open>try\<close> block are parameters:
  \<open>toString\<close> is \<^verbatim>\<open>Buffer.toString("utf8")\<close> and \<open>parse\<close> is \<^verbatim>\<open>JSON.parse\<close>, each
  returning \<open>None\<close> where the platform function throws. The result is \<open>Inr\<close> of the new
  request when the method returns and \<open>Inl\<close> of the exception when it raises.
\<close>

definition fetchPayload_try ::
  "(Buffer \<Rightarrow> string option) \<Rightarrow> (string \<Rightarrow> 'o option) \<Rightarrow> Buffer \<Rightarrow> 'o HRequest
     \<Rightarrow> unit + 'o HRequest" where
  "fetchPayload_try toString parse p r =
     (case toString p of
        None \<Rightarrow> Inl ()
      | Some payloadString \<Rightarrow>
          (case parse payloadString of
             None \<Rightarrow> Inl ()
           | Some v \<Rightarrow> Inr (r\<lparr>payloadObject := Some v\<rparr>)))"

definition fetchPayload ::
  "(Buffer \<Rightarrow> string option) \<Rightarrow> (string \<Rightarrow> 'o option) \<Rightarrow> 'o HRequest
     \<Rightarrow> HError + 'o HRequest" where
  "fetchPayload toString parse r =
     (case payload r of
        None \<Rightarrow> Inr r
      | Some p \<Rightarrow>
          (case fetchPayload_try toString parse p r of
             Inl e \<Rightarrow> Inr r
           | Inr r' \<Rightarrow> Inr r'))"

text \<open>
  \<^verbatim>\<open>verifyPayloadAgainstTypeDefinition\<close>. The conformity checker of \<^verbatim>\<open>typit\<close> is the
  parameter \<open>checkConformity\<close>. \<open>Inl\<close> is the thrown \<^verbatim>\<open>HError\<close>.
\<close>

definition verifyPayloadAgainstTypeDefinition ::
  "('t \<Rightarrow> 'o \<Rightarrow> bool) \<Rightarrow> 't \<Rightarrow> 'o HRequest \<Rightarrow> HError + unit" where
  "verifyPayloadAgainstTypeDefinition checkConformity types r =
     (case payloadObject r of
        None \<Rightarrow> Inl (mkHError 400 ''Payload undefined.'')
      | Some obj \<Rightarrow>
          if \<not> checkConformity types obj
          then Inl (mkHError 400 ''Payload is not valid type.'')
          else Inr ())"

subsection \<open>HUploadManager\<close>

datatype HUploadManagerLocation = PAYLOAD | STREAM

record HUploadManager =
  allowedExtensions :: "string list option"
  sizeLimit :: "int option"
  location :: HUploadManagerLocation

text \<open>\<^verbatim>\<open>throwFileIncorrectType\<close>: \<open>Some e\<close> when the method throws \<open>e\<close>.\<close>

definition throwFileIncorrectType :: "HUploadManager \<Rightarrow> HError option" where
  "throwFileIncorrectType m =
     (case allowedExtensions m of
        Some exts \<Rightarrow>
          Some (mkHError 415
            (''File incorrect format. Set correct 'content-type'. Valid types are ''
               @ join '', '' exts @ ''.''))
      | None \<Rightarrow> None)"

definition tooLarge :: "int \<Rightarrow> HError" where
  "tooLarge limit = mkHError 413 (''File too large. Limited to '' @ showInt limit @ '' bytes.'')"

text \<open>
  The file system maps a path to the content of the file there; \<^verbatim>\<open>FS.existsSync\<close> is
  membership in its domain. \<^verbatim>\<open>Crypto.randomBytes\<close> reads the next element of the list
  of draws, which is the fuel of the loop of \<^verbatim>\<open>getNewFilePath\<close>: the result is \<open>None\<close>
  when every draw of the list collides, and the loop has not returned.
\<close>

type_synonym FileSystem = "string \<rightharpoonup> Buffer"

definition existsSync :: "FileSystem \<Rightarrow> string \<Rightarrow> bool" where
  "existsSync fs p = (fs p \<noteq> None)"

definition tmpPath :: "Buffer \<Rightarrow> string" where
  "tmpPath r = ''/tmp/'' @ toHex r"

fun getNewFilePath :: "FileSystem \<Rightarrow> Buffer list \<Rightarrow> (string \<times> Buffer list) option" where
  "getNewFilePath fs [] = None"
| "getNewFilePath fs (r # rs) =
     (if existsSync fs (tmpPath r) then getNewFilePath fs rs else Some (tmpPath r, rs))"

subsection \<open>The promise and the listeners of handleRequest\<close>

text \<open>
  The promise is settled once: \<^verbatim>\<open>resolve\<close> and \<^verbatim>\<open>reject\<close> on a settled promise do
  nothing.
\<close>

datatype Promise = Pending | Resolved | Rejected HError

fun resolve :: "Promise \<Rightarrow> Promise" where
  "resolve Pending = Resolved"
| "resolve p = p"

fun reject :: "HError \<Rightarrow> Promise \<Rightarrow> Promise" where
  "reject e Pending = Rejected e"
| "reject e p = p"

text \<open>
  The listeners registered on the request stream, with the variables their closures hold:
  the accumulated \<^verbatim>\<open>payload\<close> of the first branch; \<^verbatim>\<open>filePath\<close>, \<^verbatim>\<open>length\<close> and whether
  \<^verbatim>\<open>writeStream.end()\<close> has been called for the second. With no listener the stream is not
  read.
\<close>

datatype Listeners =
    NoListeners
  | PayloadListeners Buffer
  | StreamListeners string int bool

record 'o Ingestion =
  request :: "'o HRequest"
  promise :: Promise
  files :: FileSystem
  listeners :: Listeners
  entropy :: "Buffer list"

text \<open>
  \<^verbatim>\<open>FS.createWriteStream\<close> opens the path with flag \<^verbatim>\<open>w\<close> (the file is created empty) and
  \<^verbatim>\<open>writeStream.write\<close> appends to it; a write after \<^verbatim>\<open>end()\<close> is refused.
\<close>

definition createWriteStream :: "string \<Rightarrow> FileSystem \<Rightarrow> FileSystem" where
  "createWriteStream p fs = fs(p \<mapsto> [])"

definition writeChunk :: "string \<Rightarrow> bool \<Rightarrow> Buffer \<Rightarrow> FileSystem \<Rightarrow> FileSystem" where
  "writeChunk p ended chunk fs =
     (if ended then fs
      else case fs p of None \<Rightarrow> fs | Some content \<Rightarrow> fs(p \<mapsto> content @ chunk))"

text \<open>The two checks at the head of the promise executor (lines 85 to 104).\<close>

definition checkContentType :: "HUploadManager \<Rightarrow> 'o HRequest \<Rightarrow> HError option" where
  "checkContentType m req =
     (case allowedExtensions m of
        None \<Rightarrow> None
      | Some exts \<Rightarrow>
          (case headers req ''content-type'' of
             None \<Rightarrow> throwFileIncorrectType m
           | Some mime \<Rightarrow> if mime \<notin> set exts then throwFileIncorrectType m else None))"

definition checkContentLength :: "HUploadManager \<Rightarrow> 'o HRequest \<Rightarrow> HError option" where
  "checkContentLength m req =
     (case sizeLimit m of
        None \<Rightarrow> None
      | Some limit \<Rightarrow>
          (case headers req ''content-length'' of
             None \<Rightarrow> None
           | Some contentLength \<Rightarrow>
               (case parseInt contentLength of
                  None \<Rightarrow> None
                | Some lengthNum \<Rightarrow> if lengthNum > limit then Some (tooLarge limit) else None)))"

text \<open>
  The promise executor, which runs when \<^verbatim>\<open>handleRequest\<close> is called: the state it leaves
  behind, or \<open>None\<close> when \<^verbatim>\<open>getNewFilePath\<close> does not return.
\<close>

definition executor ::
  "HUploadManager \<Rightarrow> 'o HRequest \<Rightarrow> Buffer list \<Rightarrow> FileSystem \<Rightarrow> 'o Ingestion option" where
  "executor m req rnd fs =
     (let idle = \<lparr>request = req, promise = Pending, files = fs, listeners = NoListeners,
                   entropy = rnd\<rparr>
      in case checkContentType m req of
           Some e \<Rightarrow> Some (idle\<lparr>promise := reject e Pending\<rparr>)
         | None \<Rightarrow>
             (case checkContentLength m req of
                Some e \<Rightarrow> Some (idle\<lparr>promise := reject e Pending\<rparr>)
              | None \<Rightarrow>
                  (case location m of
                     PAYLOAD \<Rightarrow> Some (idle\<lparr>listeners := PayloadListeners []\<rparr>)
                   | STREAM \<Rightarrow>
                       (case getNewFilePath fs rnd of
                          None \<Rightarrow> None
                        | Some (filePath, rnd') \<Rightarrow>
                            Some (idle\<lparr>files := createWriteStream filePath fs,
                                        listeners := StreamListeners filePath 0 False,
                                        entropy := rnd'\<rparr>)))))"

text \<open>
  The test \<^verbatim>\<open>this.sizeLimit !== undefined && n > this.sizeLimit\<close> of both \<^verbatim>\<open>"data"\<close>
  listeners, and the call of \<^verbatim>\<open>reject\<close> it guards.
\<close>

definition exceeds :: "HUploadManager \<Rightarrow> int \<Rightarrow> bool" where
  "exceeds m n = (case sizeLimit m of None \<Rightarrow> False | Some limit \<Rightarrow> n > limit)"

definition limitCheck :: "HUploadManager \<Rightarrow> int \<Rightarrow> Promise \<Rightarrow> Promise" where
  "limitCheck m n p =
     (case sizeLimit m of
        None \<Rightarrow> p
      | Some limit \<Rightarrow> if n > limit then reject (tooLarge limit) p else p)"

text \<open>The \<^verbatim>\<open>"data"\<close> listener, run for one chunk.\<close>

definition onData :: "HUploadManager \<Rightarrow> 'o Ingestion \<Rightarrow> Buffer \<Rightarrow> 'o Ingestion" where
  "onData m st chunk =
     (case listeners st of
        NoListeners \<Rightarrow> st
      | PayloadListeners payload0 \<Rightarrow>
          (let payload1 = payload0 @ chunk
           in st\<lparr>listeners := PayloadListeners payload1,
                 promise := limitCheck m (int (length payload1)) (promise st)\<rparr>)
      | StreamListeners filePath length0 ended \<Rightarrow>
          (let length1 = length0 + int (length chunk)
           in st\<lparr>listeners := StreamListeners filePath length1 ended,
                 files := writeChunk filePath ended chunk (files st),
                 promise := limitCheck m length1 (promise st)\<rparr>))"

text \<open>The \<^verbatim>\<open>"end"\<close> listener.\<close>

definition onEnd :: "'o Ingestion \<Rightarrow> 'o Ingestion" where
  "onEnd st =
     (case listeners st of
        NoListeners \<Rightarrow> st
      | PayloadListeners payload0 \<Rightarrow>
          st\<lparr>request := setPayload payload0 (request st),
             promise := resolve (promise st)\<rparr>
      | StreamListeners filePath length0 ended \<Rightarrow>
          st\<lparr>request := setPayloadStreamPath filePath (request st),
             listeners := StreamListeners filePath length0 True,
             promise := resolve (promise st)\<rparr>)"

text \<open>
  \<open>delivered m st cs\<close> is the state after the stream has delivered the chunks \<open>cs\<close> in
  order, \<open>afterChunks\<close> is the state of a call of \<^verbatim>\<open>handleRequest\<close> at that moment, and
  \<open>handleRequest\<close> is the state after the whole stream (its chunks, then its end).
\<close>

definition delivered :: "HUploadManager \<Rightarrow> 'o Ingestion \<Rightarrow> Buffer list \<Rightarrow> 'o Ingestion" where
  "delivered m st cs = foldl (onData m) st cs"

definition afterChunks ::
  "HUploadManager \<Rightarrow> 'o HRequest \<Rightarrow> Buffer list \<Rightarrow> FileSystem \<Rightarrow> Buffer list
     \<Rightarrow> 'o Ingestion option" where
  "afterChunks m req rnd fs cs =
     map_option (\<lambda>st. delivered m st cs) (executor m req rnd fs)"

definition handleRequest ::
  "HUploadManager \<Rightarrow> 'o HRequest \<Rightarrow> Buffer list \<Rightarrow> FileSystem \<Rightarrow> Buffer list
     \<Rightarrow> 'o Ingestion option" where
  "handleRequest m req rnd fs chunks = map_option onEnd (afterChunks m req rnd fs chunks)"

text \<open>The running total of the bytes of a chunk sequence.\<close>

definition received :: "Buffer list \<Rightarrow> int" where
  "received cs = int (length (concat cs))"

text \<open>
  The promise after the chunks \<open>cs\<close>, from the running total \<open>n\<close> and the promise \<open>p\<close>
  before them: what both \<^verbatim>\<open>"data"\<close> listeners do to the promise.
\<close>

fun promiseAfter :: "HUploadManager \<Rightarrow> int \<Rightarrow> Promise \<Rightarrow> Buffer list \<Rightarrow> Promise" where
  "promiseAfter m n p [] = p"
| "promiseAfter m n p (c # cs) =
     promiseAfter m (n + int (length c)) (limitCheck m (n + int (length c)) p) cs"

subsection \<open>Concrete policies, requests and draws\<close>

definition jsonPolicy :: "HUploadManagerLocation \<Rightarrow> int option \<Rightarrow> HUploadManager" where
  "jsonPolicy loc lim =
     \<lparr>allowedExtensions = Some [''application/json''], sizeLimit = lim, location = loc\<rparr>"

definition openPolicy :: "HUploadManagerLocation \<Rightarrow> int option \<Rightarrow> HUploadManager" where
  "openPolicy loc lim = \<lparr>allowedExtensions = None, sizeLimit = lim, location = loc\<rparr>"

definition requestWith :: "(string \<times> string) list \<Rightarrow> unit HRequest" where
  "requestWith hs = newHRequest (map_of hs) (Some ''/upload'')"

definition drawA :: Buffer where
  "drawA = [0, 0, 0, 0, 0, 0, 0, 1]"

definition drawB :: Buffer where
  "drawB = [0xde, 0xad, 0xbe, 0xef, 0, 1, 2, 3]"

text \<open>The bytes of \<^verbatim>\<open>{"a":1}\<close>.\<close>

definition bodyA1 :: Buffer where
  "bodyA1 = [0x7B, 0x22, 0x61, 0x22, 0x3A, 0x31, 0x7D]"

text \<open>
  Instances of the parameters of the payload decoding: a decoder of ASCII bytes, a parser
  that accepts the JSON texts made of one digit, and a checker whose shape is the expected
  number.
\<close>

definition asciiString :: "Buffer \<Rightarrow> string option" where
  "asciiString b =
     (if \<forall>x\<in>set b. unat x < 128 then Some (map (\<lambda>x. char_of (unat x)) b) else None)"

definition digitJSON :: "string \<Rightarrow> int option" where
  "digitJSON s =
     (case s of [c] \<Rightarrow> if digitValue c < 10 then Some (int (digitValue c)) else None
        | _ \<Rightarrow> None)"

definition sameNumber :: "int \<Rightarrow> int \<Rightarrow> bool" where
  "sameNumber shape v = (v = shape)"

definition bufferedRequest :: "Buffer \<Rightarrow> int HRequest" where
  "bufferedRequest b = (newHRequest Map.empty (Some ''/upload''))\<lparr>payload := Some b\<rparr>"

section \<open>Properties\<close>

subsection \<open>Auxiliary facts\<close>

lemma received_Nil [simp]: "received [] = 0"
  by (simp add: received_def)

lemma received_Cons [simp]: "received (c # cs) = int (length c) + received cs"
  by (simp add: received_def)

lemma received_nonneg: "0 \<le> received cs"
  by (simp add: received_def)

lemma delivered_Nil [simp]: "delivered m st [] = st"
  by (simp add: delivered_def)

lemma delivered_Cons [simp]: "delivered m st (c # cs) = delivered m (onData m st c) cs"
  by (simp add: delivered_def)


lemma limitCheck_Rejected [simp]: "limitCheck m n (Rejected e) = Rejected e"
  by (simp add: limitCheck_def split: option.splits)

lemma limitCheck_Resolved [simp]: "limitCheck m n Resolved = Resolved"
  by (simp add: limitCheck_def split: option.splits)

lemma limitCheck_Pending:
  "limitCheck m n Pending =
     (if exceeds m n then Rejected (tooLarge (the (sizeLimit m))) else Pending)"
  by (simp add: limitCheck_def exceeds_def split: option.splits)

lemma exceeds_mono: "exceeds m a \<Longrightarrow> a \<le> b \<Longrightarrow> exceeds m b"
  by (auto simp: exceeds_def split: option.splits)

lemma promiseAfter_Rejected [simp]: "promiseAfter m n (Rejected e) cs = Rejected e"
  by (induction cs arbitrary: n) simp_all

lemma promiseAfter_Resolved [simp]: "promiseAfter m n Resolved cs = Resolved"
  by (induction cs arbitrary: n) simp_all

lemma promiseAfter_within:
  "\<not> exceeds m (n + received cs) \<Longrightarrow> promiseAfter m n Pending cs = Pending"
proof (induction cs arbitrary: n)
  case Nil
  show ?case by simp
next
  case (Cons c cs)
  have step: "\<not> exceeds m (n + int (length c))"
    using Cons.prems exceeds_mono [of m "n + int (length c)" "n + received (c # cs)"]
      received_nonneg [of cs] by auto
  have rest: "\<not> exceeds m (n + int (length c) + received cs)"
    using Cons.prems by (simp add: add.assoc)
  show ?case
    using Cons.IH [OF rest] step by (simp add: limitCheck_Pending)
qed

lemma promiseAfter_beyond:
  "cs \<noteq> [] \<Longrightarrow> exceeds m (n + received cs) \<Longrightarrow>
     promiseAfter m n Pending cs = Rejected (tooLarge (the (sizeLimit m)))"
proof (induction cs arbitrary: n)
  case Nil
  then show ?case by simp
next
  case (Cons c cs)
  show ?case
  proof (cases "exceeds m (n + int (length c))")
    case True
    then show ?thesis by (simp add: limitCheck_Pending)
  next
    case False
    have ne: "cs \<noteq> []"
      using False Cons.prems(2) by (cases cs) auto
    have rest: "exceeds m (n + int (length c) + received cs)"
      using Cons.prems(2) by (simp add: add.assoc)
    show ?thesis
      using Cons.IH [OF ne rest] False by (simp add: limitCheck_Pending)
  qed
qed

lemma onData_NoListeners: "listeners st = NoListeners \<Longrightarrow> onData m st c = st"
  by (simp add: onData_def)

lemma delivered_NoListeners: "listeners st = NoListeners \<Longrightarrow> delivered m st cs = st"
  by (induction cs) (simp_all add: onData_NoListeners)

lemma onEnd_NoListeners: "listeners st = NoListeners \<Longrightarrow> onEnd st = st"
  by (simp add: onEnd_def)

lemma delivered_Payload:
  "listeners st = PayloadListeners b \<Longrightarrow>
     delivered m st cs =
       st\<lparr>listeners := PayloadListeners (b @ concat cs),
          promise := promiseAfter m (int (length b)) (promise st) cs\<rparr>"
proof (induction cs arbitrary: st b)
  case Nil
  then show ?case by simp
next
  case (Cons c cs)
  have l: "listeners (onData m st c) = PayloadListeners (b @ c)"
    using Cons.prems by (simp add: onData_def)
  show ?case
    using Cons.IH [OF l] Cons.prems by (simp add: onData_def)
qed

lemma delivered_Stream:
  "listeners st = StreamListeners p n False \<Longrightarrow> files st p = Some d \<Longrightarrow>
     delivered m st cs =
       st\<lparr>listeners := StreamListeners p (n + received cs) False,
          files := (files st)(p \<mapsto> d @ concat cs),
          promise := promiseAfter m n (promise st) cs\<rparr>"
proof (induction cs arbitrary: st n d)
  case Nil
  then show ?case by (simp add: fun_upd_idem)
next
  case (Cons c cs)
  let ?st' = "st\<lparr>listeners := StreamListeners p (n + int (length c)) False,
                 files := (files st)(p \<mapsto> d @ c),
                 promise := limitCheck m (n + int (length c)) (promise st)\<rparr>"
  have od: "onData m st c = ?st'"
    using Cons.prems by (simp add: onData_def Let_def writeChunk_def)
  have l: "listeners ?st' = StreamListeners p (n + int (length c)) False"
    by simp
  have f: "files ?st' p = Some (d @ c)"
    by simp
  have "delivered m st (c # cs) = delivered m ?st' cs"
    by (simp add: od)
  also have "\<dots> = ?st'\<lparr>listeners := StreamListeners p (n + int (length c) + received cs) False,
          files := (files ?st')(p \<mapsto> (d @ c) @ concat cs),
          promise := promiseAfter m (n + int (length c)) (promise ?st') cs\<rparr>"
    by (rule Cons.IH [OF l f])
  also have "\<dots> = st\<lparr>listeners := StreamListeners p (n + received (c # cs)) False,
          files := (files st)(p \<mapsto> d @ concat (c # cs)),
          promise := promiseAfter m n (promise st) (c # cs)\<rparr>"
    by (simp add: add.assoc del: fun_upd_apply)
  finally show ?case .
qed

subsection \<open>The three ways the executor ends, and the states that follow\<close>

lemma executor_rejecting:
  "checkContentType m req = Some e \<or>
     (checkContentType m req = None \<and> checkContentLength m req = Some e) \<Longrightarrow>
   executor m req rnd fs =
     Some \<lparr>request = req, promise = Rejected e, files = fs, listeners = NoListeners,
           entropy = rnd\<rparr>"
  by (auto simp: executor_def)

lemma executor_payload:
  "checkContentType m req = None \<Longrightarrow> checkContentLength m req = None \<Longrightarrow>
   location m = PAYLOAD \<Longrightarrow>
   executor m req rnd fs =
     Some \<lparr>request = req, promise = Pending, files = fs, listeners = PayloadListeners [],
           entropy = rnd\<rparr>"
  by (simp add: executor_def)

lemma executor_stream:
  "checkContentType m req = None \<Longrightarrow> checkContentLength m req = None \<Longrightarrow>
   location m = STREAM \<Longrightarrow>
   executor m req rnd fs =
     (case getNewFilePath fs rnd of
        None \<Rightarrow> None
      | Some (p, rnd') \<Rightarrow>
          Some \<lparr>request = req, promise = Pending, files = fs(p \<mapsto> []),
                listeners = StreamListeners p 0 False, entropy = rnd'\<rparr>)"
  by (simp add: executor_def createWriteStream_def split: option.splits)

lemma afterChunks_rejecting:
  "checkContentType m req = Some e \<or>
     (checkContentType m req = None \<and> checkContentLength m req = Some e) \<Longrightarrow>
   afterChunks m req rnd fs cs =
     Some \<lparr>request = req, promise = Rejected e, files = fs, listeners = NoListeners,
           entropy = rnd\<rparr>"
  by (simp only: afterChunks_def executor_rejecting) (simp add: delivered_NoListeners)

lemma afterChunks_payload:
  assumes "checkContentType m req = None" and "checkContentLength m req = None"
    and "location m = PAYLOAD"
  shows "afterChunks m req rnd fs cs =
     Some \<lparr>request = req, promise = promiseAfter m 0 Pending cs, files = fs,
           listeners = PayloadListeners (concat cs), entropy = rnd\<rparr>"
  by (simp add: afterChunks_def executor_payload [OF assms] delivered_Payload)

lemma afterChunks_stream:
  assumes "checkContentType m req = None" and "checkContentLength m req = None"
    and "location m = STREAM"
  shows "afterChunks m req rnd fs cs =
     (case getNewFilePath fs rnd of
        None \<Rightarrow> None
      | Some (p, rnd') \<Rightarrow>
          Some \<lparr>request = req, promise = promiseAfter m 0 Pending cs,
                files = fs(p \<mapsto> concat cs),
                listeners = StreamListeners p (received cs) False, entropy = rnd'\<rparr>)"
proof (cases "getNewFilePath fs rnd")
  case None
  then show ?thesis
    by (simp add: afterChunks_def executor_stream [OF assms])
next
  case (Some a)
  obtain p rnd' where a: "a = (p, rnd')"
    by (cases a)
  let ?st = "\<lparr>request = req, promise = Pending, files = fs(p \<mapsto> []),
               listeners = StreamListeners p 0 False, entropy = rnd'\<rparr> :: 'a Ingestion"
  have l: "listeners ?st = StreamListeners p 0 False"
    by simp
  have f: "files ?st p = Some []"
    by simp
  have "delivered m ?st cs =
      \<lparr>request = req, promise = promiseAfter m 0 Pending cs, files = fs(p \<mapsto> concat cs),
       listeners = StreamListeners p (received cs) False, entropy = rnd'\<rparr>"
    by (simp add: delivered_Stream [OF l f] del: fun_upd_apply)
  then show ?thesis
    using Some a by (simp add: afterChunks_def executor_stream [OF assms])
qed

lemma handleRequest_rejecting:
  "checkContentType m req = Some e \<or>
     (checkContentType m req = None \<and> checkContentLength m req = Some e) \<Longrightarrow>
   handleRequest m req rnd fs cs =
     Some \<lparr>request = req, promise = Rejected e, files = fs, listeners = NoListeners,
           entropy = rnd\<rparr>"
  by (simp add: handleRequest_def afterChunks_rejecting onEnd_NoListeners)

lemma handleRequest_payload:
  assumes "checkContentType m req = None" and "checkContentLength m req = None"
    and "location m = PAYLOAD"
  shows "handleRequest m req rnd fs cs =
     Some \<lparr>request = req\<lparr>payload := Some (concat cs)\<rparr>,
           promise = resolve (promiseAfter m 0 Pending cs), files = fs,
           listeners = PayloadListeners (concat cs), entropy = rnd\<rparr>"
  by (simp add: handleRequest_def afterChunks_payload [OF assms] onEnd_def setPayload_def)

lemma handleRequest_stream:
  assumes "checkContentType m req = None" and "checkContentLength m req = None"
    and "location m = STREAM"
  shows "handleRequest m req rnd fs cs =
     (case getNewFilePath fs rnd of
        None \<Rightarrow> None
      | Some (p, rnd') \<Rightarrow>
          Some \<lparr>request = req\<lparr>payloadSteamPath := Some p\<rparr>,
                promise = resolve (promiseAfter m 0 Pending cs),
                files = fs(p \<mapsto> concat cs),
                listeners = StreamListeners p (received cs) True, entropy = rnd'\<rparr>)"
  by (simp add: handleRequest_def afterChunks_stream [OF assms] onEnd_def
      setPayloadStreamPath_def split: option.splits del: fun_upd_apply)

lemma checks_cases:
  "(\<exists>e. checkContentType m req = Some e \<or>
        (checkContentType m req = None \<and> checkContentLength m req = Some e)) \<or>
   (checkContentType m req = None \<and> checkContentLength m req = None)"
  by (cases "checkContentType m req"; cases "checkContentLength m req") auto

lemma code_tooLarge [simp]: "code (tooLarge limit) = 413"
  by (simp add: tooLarge_def mkHError_def)

lemmas example_defs =
  jsonPolicy_def openPolicy_def requestWith_def newHRequest_def drawA_def drawB_def bodyA1_def

lemmas check_defs =
  checkContentType_def checkContentLength_def throwFileIncorrectType_def parseInt_def
  isWhiteSpace_def digitValue_def

subsection \<open>Declared content type\<close>

text \<open>
  C5. When the policy has an allow-list and the request's \<^verbatim>\<open>content-type\<close> header is absent
  or is not a member of the list, the promise is rejected with status 415 by the executor
  itself: no listener is registered, the request and the file system are as they were (no
  buffer, no file), and whatever the stream holds, no chunk of it is read, so the state
  after any chunks and after the end of the stream is the state the executor left.
\<close>

theorem incorrect_content_type_rejected_unread:
  assumes "allowedExtensions m = Some exts"
    and "headers req ''content-type'' = None \<or>
         (\<exists>mime. headers req ''content-type'' = Some mime \<and> mime \<notin> set exts)"
  shows "\<exists>e. code e = 415 \<and>
           executor m req rnd fs =
             Some \<lparr>request = req, promise = Rejected e, files = fs, listeners = NoListeners,
                   entropy = rnd\<rparr> \<and>
           (\<forall>chunks. afterChunks m req rnd fs chunks = executor m req rnd fs \<and>
                     handleRequest m req rnd fs chunks = executor m req rnd fs)"
proof -
  obtain e where e: "throwFileIncorrectType m = Some e" and c: "code e = 415"
    using assms(1) by (simp add: throwFileIncorrectType_def mkHError_def)
  have "checkContentType m req = Some e"
    using assms e by (auto simp: checkContentType_def)
  then have r: "checkContentType m req = Some e \<or>
      (checkContentType m req = None \<and> checkContentLength m req = Some e)"
    by simp
  show ?thesis
    using c executor_rejecting [OF r] afterChunks_rejecting [OF r] handleRequest_rejecting [OF r]
    by simp
qed

theorem incorrect_content_type_rejected_unread_witness:
  "allowedExtensions (jsonPolicy STREAM (Some 1024)) = Some [''application/json''] \<and>
   headers (requestWith [(''content-type'', ''text/plain'')]) ''content-type''
     = Some ''text/plain'' \<and>
   ''text/plain'' \<notin> set [''application/json''] \<and>
   (\<exists>e. code e = 415 \<and>
      handleRequest (jsonPolicy STREAM (Some 1024))
          (requestWith [(''content-type'', ''text/plain'')]) [drawA] Map.empty [bodyA1] =
        Some \<lparr>request = requestWith [(''content-type'', ''text/plain'')],
              promise = Rejected e, files = Map.empty, listeners = NoListeners,
              entropy = [drawA]\<rparr>)"
proof -
  let ?m = "jsonPolicy STREAM (Some 1024)"
  let ?r = "requestWith [(''content-type'', ''text/plain'')]"
  have a: "allowedExtensions ?m = Some [''application/json'']"
    by (simp add: example_defs)
  have h: "headers ?r ''content-type'' = Some ''text/plain''"
    by (simp add: example_defs)
  have n: "''text/plain'' \<notin> set [''application/json'']"
    by simp
  have b: "headers ?r ''content-type'' = None \<or>
      (\<exists>mime. headers ?r ''content-type'' = Some mime \<and> mime \<notin> set [''application/json''])"
    using h n by blast
  obtain e where "code e = 415"
    and "executor ?m ?r [drawA] Map.empty =
      Some \<lparr>request = ?r, promise = Rejected e, files = Map.empty, listeners = NoListeners,
            entropy = [drawA]\<rparr>"
    and "\<forall>chunks. afterChunks ?m ?r [drawA] Map.empty chunks = executor ?m ?r [drawA] Map.empty \<and>
            handleRequest ?m ?r [drawA] Map.empty chunks = executor ?m ?r [drawA] Map.empty"
    using incorrect_content_type_rejected_unread [OF a b, of "[drawA]" Map.empty] by blast
  then have "code e = 415 \<and> handleRequest ?m ?r [drawA] Map.empty [bodyA1] =
      Some \<lparr>request = ?r, promise = Rejected e, files = Map.empty, listeners = NoListeners,
            entropy = [drawA]\<rparr>"
    by simp
  then show ?thesis
    using a h n by blast
qed

subsection \<open>Buffer mode within the ceiling\<close>

text \<open>
  C4. In buffer mode (\<^verbatim>\<open>PAYLOAD\<close>), when the request passes the content-type check and the
  declared-length check and the total length of the chunks is at most the size limit, or
  there is no size limit, the promise is resolved and the payload set on the request is the
  concatenation of the chunks in arrival order; its length is the sum of the chunk lengths.
\<close>

theorem buffer_within_ceiling_succeeds:
  assumes "location m = PAYLOAD"
    and "checkContentType m req = None"
    and "checkContentLength m req = None"
    and "sizeLimit m = None \<or> (\<exists>limit. sizeLimit m = Some limit \<and> received chunks \<le> limit)"
  shows "handleRequest m req rnd fs chunks =
           Some \<lparr>request = req\<lparr>payload := Some (concat chunks)\<rparr>, promise = Resolved,
                 files = fs, listeners = PayloadListeners (concat chunks), entropy = rnd\<rparr> \<and>
         length (concat chunks) = sum_list (map length chunks)"
proof -
  have "\<not> exceeds m (0 + received chunks)"
    using assms(4) by (auto simp: exceeds_def)
  then have "promiseAfter m 0 Pending chunks = Pending"
    by (rule promiseAfter_within)
  then show ?thesis
    using handleRequest_payload [OF assms(2) assms(3) assms(1), of rnd fs chunks]
    by (simp add: length_concat)
qed

theorem buffer_within_ceiling_succeeds_witness:
  "location (jsonPolicy PAYLOAD None) = PAYLOAD \<and>
   checkContentType (jsonPolicy PAYLOAD None)
     (requestWith [(''content-type'', ''application/json'')]) = None \<and>
   checkContentLength (jsonPolicy PAYLOAD None)
     (requestWith [(''content-type'', ''application/json'')]) = None \<and>
   sizeLimit (jsonPolicy PAYLOAD None) = None \<and>
   handleRequest (jsonPolicy PAYLOAD None)
       (requestWith [(''content-type'', ''application/json'')]) [] Map.empty
       [[0x7B, 0x22, 0x61], [0x22, 0x3A, 0x31, 0x7D]] =
     Some \<lparr>request = (requestWith [(''content-type'', ''application/json'')])
                 \<lparr>payload := Some bodyA1\<rparr>,
           promise = Resolved, files = Map.empty, listeners = PayloadListeners bodyA1,
           entropy = []\<rparr>"
  using buffer_within_ceiling_succeeds
    [of "jsonPolicy PAYLOAD None" "requestWith [(''content-type'', ''application/json'')]"
        "[[0x7B, 0x22, 0x61], [0x22, 0x3A, 0x31, 0x7D]]" "[]" Map.empty]
  by (simp add: example_defs check_defs)

subsection \<open>Temporary file names\<close>

lemma set_toHex: "set (toHex b) \<subseteq> set ''0123456789abcdef''"
proof -
  have "hexDigit n \<in> set ''0123456789abcdef''" for n
    unfolding hexDigit_def by (rule nth_mem) simp
  then show ?thesis
    by (auto simp: toHex_def)
qed

lemma length_toHex: "length (toHex b) = 2 * length b"
  by (induction b) (simp_all add: toHex_def)

lemma getNewFilePath_None:
  "getNewFilePath fs rnd = None \<longleftrightarrow> (\<forall>r\<in>set rnd. existsSync fs (tmpPath r))"
  by (induction rnd) simp_all

lemma getNewFilePath_Some:
  "getNewFilePath fs rnd = Some (p, rest) \<Longrightarrow>
     \<exists>skipped r. rnd = skipped @ r # rest \<and> p = tmpPath r \<and> \<not> existsSync fs p \<and>
       (\<forall>s\<in>set skipped. existsSync fs (tmpPath s))"
proof (induction rnd)
  case Nil
  then show ?case by simp
next
  case (Cons a rnd)
  show ?case
  proof (cases "existsSync fs (tmpPath a)")
    case True
    then have "getNewFilePath fs rnd = Some (p, rest)"
      using Cons.prems by simp
    then obtain skipped r where
      "rnd = skipped @ r # rest" "p = tmpPath r" "\<not> existsSync fs p"
      "\<forall>s\<in>set skipped. existsSync fs (tmpPath s)"
      using Cons.IH by blast
    then have "a # rnd = (a # skipped) @ r # rest \<and> p = tmpPath r \<and> \<not> existsSync fs p \<and>
       (\<forall>s\<in>set (a # skipped). existsSync fs (tmpPath s))"
      using True by simp
    then show ?thesis by blast
  next
    case False
    then have "a # rnd = [] @ a # rest \<and> p = tmpPath a \<and> \<not> existsSync fs p \<and>
       (\<forall>s\<in>set []. existsSync fs (tmpPath s))"
      using Cons.prems by simp
    then show ?thesis by blast
  qed
qed

text \<open>
  C8. \<^verbatim>\<open>getNewFilePath\<close> returns the fixed directory \<^verbatim>\<open>/tmp/\<close> followed by the hexadecimal
  encoding (two digits from \<^verbatim>\<open>0123456789abcdef\<close> for each byte) of a random draw. Every draw
  whose path exists is discarded and a new one is taken, so every draw before the returned
  one collided, and the returned path did not exist when it was checked. The loop returns as
  soon as some draw does not collide, and only then.
\<close>

theorem getNewFilePath_fresh:
  "(getNewFilePath fs rnd = None \<longleftrightarrow> (\<forall>r\<in>set rnd. existsSync fs (tmpPath r))) \<and>
   (\<forall>p rest. getNewFilePath fs rnd = Some (p, rest) \<longrightarrow>
      (\<exists>skipped r. rnd = skipped @ r # rest \<and>
         p = ''/tmp/'' @ toHex r \<and>
         length (toHex r) = 2 * length r \<and>
         set (toHex r) \<subseteq> set ''0123456789abcdef'' \<and>
         fs p = None \<and>
         (\<forall>s\<in>set skipped. fs (''/tmp/'' @ toHex s) \<noteq> None)))"
proof (intro conjI allI impI)
  show "getNewFilePath fs rnd = None \<longleftrightarrow> (\<forall>r\<in>set rnd. existsSync fs (tmpPath r))"
    by (rule getNewFilePath_None)
next
  fix p rest
  assume "getNewFilePath fs rnd = Some (p, rest)"
  then obtain skipped r where
    "rnd = skipped @ r # rest" "p = tmpPath r" "\<not> existsSync fs p"
    "\<forall>s\<in>set skipped. existsSync fs (tmpPath s)"
    using getNewFilePath_Some by blast
  then have "rnd = skipped @ r # rest \<and>
         p = ''/tmp/'' @ toHex r \<and>
         length (toHex r) = 2 * length r \<and>
         set (toHex r) \<subseteq> set ''0123456789abcdef'' \<and>
         fs p = None \<and>
         (\<forall>s\<in>set skipped. fs (''/tmp/'' @ toHex s) \<noteq> None)"
    using length_toHex [of r] set_toHex [of r] by (simp add: existsSync_def tmpPath_def)
  then show "\<exists>skipped r. rnd = skipped @ r # rest \<and>
         p = ''/tmp/'' @ toHex r \<and>
         length (toHex r) = 2 * length r \<and>
         set (toHex r) \<subseteq> set ''0123456789abcdef'' \<and>
         fs p = None \<and>
         (\<forall>s\<in>set skipped. fs (''/tmp/'' @ toHex s) \<noteq> None)"
    by blast
qed

theorem getNewFilePath_fresh_witness:
  "getNewFilePath [''/tmp/0000000000000001'' \<mapsto> bodyA1] [drawA, drawB, drawA] =
     Some (''/tmp/deadbeef00010203'', [drawA]) \<and>
   [''/tmp/0000000000000001'' \<mapsto> bodyA1] ''/tmp/deadbeef00010203'' = None \<and>
   [''/tmp/0000000000000001'' \<mapsto> bodyA1] (''/tmp/'' @ toHex drawA) \<noteq> None \<and>
   length (toHex drawB) = 16"
  using getNewFilePath_fresh
    [of "[''/tmp/0000000000000001'' \<mapsto> bodyA1]" "[drawA, drawB, drawA]"]
  by (simp add: example_defs existsSync_def tmpPath_def toHex_def hexDigit_def)

subsection \<open>One payload slot\<close>

text \<open>
  C9. A call of \<^verbatim>\<open>handleRequest\<close> in buffer mode never writes the stream-path slot of the
  request and a call in stream mode never writes the bytes slot, so on a request whose two
  payload slots are empty at the start at most one of them is filled when the call
  completes.
\<close>

theorem payload_slots_exclusive:
  assumes "payload req = None" and "payloadSteamPath req = None"
    and "handleRequest m req rnd fs chunks = Some st"
  shows "(payload (request st) = None \<or> payloadSteamPath (request st) = None) \<and>
         (location m = PAYLOAD \<longrightarrow> payloadSteamPath (request st) = None) \<and>
         (location m = STREAM \<longrightarrow> payload (request st) = None)"
proof -
  consider (rej) e where "checkContentType m req = Some e \<or>
        (checkContentType m req = None \<and> checkContentLength m req = Some e)"
    | (buf) "checkContentType m req = None" "checkContentLength m req = None"
        "location m = PAYLOAD"
    | (str) "checkContentType m req = None" "checkContentLength m req = None"
        "location m = STREAM"
    using checks_cases [of m req] by (cases "location m") auto
  then show ?thesis
  proof cases
    case rej
    then show ?thesis
      using assms handleRequest_rejecting [OF rej, of rnd fs chunks] by auto
  next
    case buf
    then show ?thesis
      using assms handleRequest_payload [OF buf, of rnd fs chunks] by auto
  next
    case str
    then show ?thesis
      using assms handleRequest_stream [OF str, of rnd fs chunks]
      by (auto split: option.splits)
  qed
qed

theorem payload_slots_exclusive_witness:
  "payload (requestWith []) = None \<and> payloadSteamPath (requestWith []) = None \<and>
   handleRequest (openPolicy STREAM (Some 1024)) (requestWith []) [drawB] Map.empty [bodyA1] =
     Some \<lparr>request = (requestWith [])\<lparr>payloadSteamPath := Some ''/tmp/deadbeef00010203''\<rparr>,
           promise = Resolved, files = [''/tmp/deadbeef00010203'' \<mapsto> bodyA1],
           listeners = StreamListeners ''/tmp/deadbeef00010203'' 7 True, entropy = []\<rparr> \<and>
   payload (request
     \<lparr>request = (requestWith [])\<lparr>payloadSteamPath := Some ''/tmp/deadbeef00010203''\<rparr>,
      promise = Resolved, files = [''/tmp/deadbeef00010203'' \<mapsto> bodyA1],
      listeners = StreamListeners ''/tmp/deadbeef00010203'' 7 True, entropy = []\<rparr>) = None"
proof -
  have run: "handleRequest (openPolicy STREAM (Some 1024)) (requestWith []) [drawB] Map.empty
      [bodyA1] =
     Some \<lparr>request = (requestWith [])\<lparr>payloadSteamPath := Some ''/tmp/deadbeef00010203''\<rparr>,
           promise = Resolved, files = [''/tmp/deadbeef00010203'' \<mapsto> bodyA1],
           listeners = StreamListeners ''/tmp/deadbeef00010203'' 7 True, entropy = []\<rparr>"
    by (simp add: example_defs check_defs handleRequest_def afterChunks_def executor_def
        onData_def onEnd_def limitCheck_def createWriteStream_def writeChunk_def existsSync_def
        tmpPath_def toHex_def hexDigit_def setPayloadStreamPath_def)
  have p: "payload (requestWith []) = None" and q: "payloadSteamPath (requestWith []) = None"
    by (simp_all add: example_defs)
  show ?thesis
    using payload_slots_exclusive [OF p q run] run p q by simp
qed

subsection \<open>Payload decoding\<close>

lemma fetchPayload_returns:
  "fetchPayload toString parse r =
     Inr (case payload r of
            None \<Rightarrow> r
          | Some p \<Rightarrow>
              (case Option.bind (toString p) parse of
                 None \<Rightarrow> r
               | Some v \<Rightarrow> r\<lparr>payloadObject := Some v\<rparr>))"
  by (simp add: fetchPayload_def fetchPayload_try_def split: option.splits)

lemma verify_fails_iff:
  "(\<exists>e. verifyPayloadAgainstTypeDefinition check types r = Inl e \<and> code e = 400) \<longleftrightarrow>
     (payloadObject r = None \<or> (\<exists>obj. payloadObject r = Some obj \<and> \<not> check types obj))"
  by (auto simp: verifyPayloadAgainstTypeDefinition_def mkHError_def split: option.splits)

lemma verify_passes_iff:
  "verifyPayloadAgainstTypeDefinition check types r = Inr () \<longleftrightarrow>
     (\<exists>obj. payloadObject r = Some obj \<and> check types obj)"
  by (auto simp: verifyPayloadAgainstTypeDefinition_def split: option.splits)

lemma verify_only_400:
  "\<forall>e. verifyPayloadAgainstTypeDefinition check types r = Inl e \<longrightarrow> code e = 400"
  by (auto simp: verifyPayloadAgainstTypeDefinition_def mkHError_def
      split: option.splits if_splits)

lemma verify_shape:
  "((\<exists>e. verifyPayloadAgainstTypeDefinition check types r = Inl e \<and> code e = 400) \<longleftrightarrow>
      (payloadObject r = None \<or> (\<exists>obj. payloadObject r = Some obj \<and> \<not> check types obj))) \<and>
   (verifyPayloadAgainstTypeDefinition check types r = Inr () \<longleftrightarrow>
      (\<exists>obj. payloadObject r = Some obj \<and> check types obj)) \<and>
   (\<forall>e. verifyPayloadAgainstTypeDefinition check types r = Inl e \<longrightarrow> code e = 400)"
  by (intro conjI verify_fails_iff verify_passes_iff verify_only_400)

text \<open>
  C7. \<^verbatim>\<open>fetchPayload\<close> always returns, whatever the decoder and the parser do. With no
  buffered payload the request is unchanged. When the UTF-8 decoding or the JSON parsing
  throws, the exception is caught and the request is unchanged, so a decoded cache that was
  empty is still empty. When both succeed the parsed value is cached. A following
  \<^verbatim>\<open>verifyPayloadAgainstTypeDefinition\<close> throws an \<^verbatim>\<open>HError\<close> with status 400 exactly when
  the cache is empty or the cached value does not conform, and returns otherwise; it never
  throws anything else.
\<close>

theorem decoding_never_raises:
  "\<exists>r'. fetchPayload toString parse r = Inr r' \<and>
     (payload r = None \<longrightarrow> r' = r) \<and>
     (\<forall>p. payload r = Some p \<and>
          (toString p = None \<or> (\<exists>s. toString p = Some s \<and> parse s = None)) \<longrightarrow>
          r' = r \<and> (payloadObject r = None \<longrightarrow> payloadObject r' = None)) \<and>
     (\<forall>p s v. payload r = Some p \<and> toString p = Some s \<and> parse s = Some v \<longrightarrow>
          r' = r\<lparr>payloadObject := Some v\<rparr>) \<and>
     (\<forall>check types.
        ((\<exists>e. verifyPayloadAgainstTypeDefinition check types r' = Inl e \<and> code e = 400) \<longleftrightarrow>
           (payloadObject r' = None \<or>
            (\<exists>obj. payloadObject r' = Some obj \<and> \<not> check types obj))) \<and>
        (verifyPayloadAgainstTypeDefinition check types r' = Inr () \<longleftrightarrow>
           (\<exists>obj. payloadObject r' = Some obj \<and> check types obj)) \<and>
        (\<forall>e. verifyPayloadAgainstTypeDefinition check types r' = Inl e \<longrightarrow> code e = 400))"
proof -
  obtain r' where ret: "fetchPayload toString parse r = Inr r'"
    and r': "r' = (case payload r of
            None \<Rightarrow> r
          | Some p \<Rightarrow>
              (case Option.bind (toString p) parse of
                 None \<Rightarrow> r
               | Some v \<Rightarrow> r\<lparr>payloadObject := Some v\<rparr>))"
    using fetchPayload_returns [of toString parse r] by simp
  have absent: "payload r = None \<longrightarrow> r' = r"
    by (simp add: r')
  have failed: "\<forall>p. payload r = Some p \<and>
          (toString p = None \<or> (\<exists>s. toString p = Some s \<and> parse s = None)) \<longrightarrow>
          r' = r \<and> (payloadObject r = None \<longrightarrow> payloadObject r' = None)"
  proof (intro allI impI)
    fix p
    assume a: "payload r = Some p \<and>
          (toString p = None \<or> (\<exists>s. toString p = Some s \<and> parse s = None))"
    then have "Option.bind (toString p) parse = None"
      by (cases "toString p") auto
    then have "r' = r"
      using a by (simp add: r')
    then show "r' = r \<and> (payloadObject r = None \<longrightarrow> payloadObject r' = None)"
      by simp
  qed
  have decoded: "\<forall>p s v. payload r = Some p \<and> toString p = Some s \<and> parse s = Some v \<longrightarrow>
          r' = r\<lparr>payloadObject := Some v\<rparr>"
    by (simp add: r')
  have shape: "\<forall>check types.
        ((\<exists>e. verifyPayloadAgainstTypeDefinition check types r' = Inl e \<and> code e = 400) \<longleftrightarrow>
           (payloadObject r' = None \<or>
            (\<exists>obj. payloadObject r' = Some obj \<and> \<not> check types obj))) \<and>
        (verifyPayloadAgainstTypeDefinition check types r' = Inr () \<longleftrightarrow>
           (\<exists>obj. payloadObject r' = Some obj \<and> check types obj)) \<and>
        (\<forall>e. verifyPayloadAgainstTypeDefinition check types r' = Inl e \<longrightarrow> code e = 400)"
    by (intro allI verify_shape)
  show ?thesis
    by (rule exI [of _ r']) (intro conjI ret absent failed decoded shape)
qed

theorem decoding_never_raises_witness:
  "payload (bufferedRequest [0x7B]) = Some [0x7B] \<and>
   asciiString [0x7B] = Some ''{'' \<and> digitJSON ''{'' = None \<and>
   payloadObject (bufferedRequest [0x7B]) = None \<and>
   fetchPayload asciiString digitJSON (bufferedRequest [0x7B]) = Inr (bufferedRequest [0x7B]) \<and>
   (\<exists>e. verifyPayloadAgainstTypeDefinition sameNumber 1 (bufferedRequest [0x7B]) = Inl e \<and>
        code e = 400) \<and>
   payload (bufferedRequest [0x31]) = Some [0x31] \<and>
   asciiString [0x31] = Some ''1'' \<and> digitJSON ''1'' = Some 1 \<and>
   fetchPayload asciiString digitJSON (bufferedRequest [0x31]) =
     Inr ((bufferedRequest [0x31])\<lparr>payloadObject := Some 1\<rparr>) \<and>
   verifyPayloadAgainstTypeDefinition sameNumber 1
     ((bufferedRequest [0x31])\<lparr>payloadObject := Some 1\<rparr>) = Inr ()"
proof -
  let ?r = "bufferedRequest [0x7B]"
  have p: "payload ?r = Some [0x7B]"
    by (simp add: bufferedRequest_def newHRequest_def)
  have t: "asciiString [0x7B] = Some ''{''"
    by code_simp
  have j: "digitJSON ''{'' = None"
    by (simp add: digitJSON_def digitValue_def)
  have c: "payloadObject ?r = None"
    by (simp add: bufferedRequest_def newHRequest_def)
  obtain r' where ret: "fetchPayload asciiString digitJSON ?r = Inr r'"
    and "payload ?r = None \<longrightarrow> r' = ?r"
    and failed: "\<forall>p. payload ?r = Some p \<and>
          (asciiString p = None \<or> (\<exists>s. asciiString p = Some s \<and> digitJSON s = None)) \<longrightarrow>
          r' = ?r \<and> (payloadObject ?r = None \<longrightarrow> payloadObject r' = None)"
    and "\<forall>p s v. payload ?r = Some p \<and> asciiString p = Some s \<and> digitJSON s = Some v \<longrightarrow>
          r' = ?r\<lparr>payloadObject := Some v\<rparr>"
    and shape: "\<forall>(check :: int \<Rightarrow> int \<Rightarrow> bool) types.
        ((\<exists>e. verifyPayloadAgainstTypeDefinition check types r' = Inl e \<and> code e = 400) \<longleftrightarrow>
           (payloadObject r' = None \<or>
            (\<exists>obj. payloadObject r' = Some obj \<and> \<not> check types obj))) \<and>
        (verifyPayloadAgainstTypeDefinition check types r' = Inr () \<longleftrightarrow>
           (\<exists>obj. payloadObject r' = Some obj \<and> check types obj)) \<and>
        (\<forall>e. verifyPayloadAgainstTypeDefinition check types r' = Inl e \<longrightarrow> code e = 400)"
    using decoding_never_raises [of asciiString digitJSON ?r]
    by (elim exE conjE) (rule that; assumption)
  have prem: "payload ?r = Some [0x7B] \<and>
      (asciiString [0x7B] = None \<or> (\<exists>s. asciiString [0x7B] = Some s \<and> digitJSON s = None))"
    using p t j by simp
  have same: "r' = ?r"
    using failed [rule_format, OF prem] by simp
  have "(\<exists>e. verifyPayloadAgainstTypeDefinition sameNumber 1 r' = Inl e \<and> code e = 400) \<longleftrightarrow>
           (payloadObject r' = None \<or>
            (\<exists>obj. payloadObject r' = Some obj \<and> \<not> sameNumber 1 obj))"
    using shape [rule_format, of sameNumber 1] by (rule conjunct1)
  then have bad: "\<exists>e. verifyPayloadAgainstTypeDefinition sameNumber 1 ?r = Inl e \<and> code e = 400"
    using same c by simp
  let ?q = "bufferedRequest [0x31]"
  have p1: "payload ?q = Some [0x31]"
    by (simp add: bufferedRequest_def newHRequest_def)
  have t1: "asciiString [0x31] = Some ''1''"
    by code_simp
  have j1: "digitJSON ''1'' = Some 1"
    by (simp add: digitJSON_def digitValue_def)
  obtain q' where ret1: "fetchPayload asciiString digitJSON ?q = Inr q'"
    and "payload ?q = None \<longrightarrow> q' = ?q"
    and "\<forall>p. payload ?q = Some p \<and>
          (asciiString p = None \<or> (\<exists>s. asciiString p = Some s \<and> digitJSON s = None)) \<longrightarrow>
          q' = ?q \<and> (payloadObject ?q = None \<longrightarrow> payloadObject q' = None)"
    and decoded: "\<forall>p s v. payload ?q = Some p \<and> asciiString p = Some s \<and> digitJSON s = Some v \<longrightarrow>
          q' = ?q\<lparr>payloadObject := Some v\<rparr>"
    and shape1: "\<forall>(check :: int \<Rightarrow> int \<Rightarrow> bool) types.
        ((\<exists>e. verifyPayloadAgainstTypeDefinition check types q' = Inl e \<and> code e = 400) \<longleftrightarrow>
           (payloadObject q' = None \<or>
            (\<exists>obj. payloadObject q' = Some obj \<and> \<not> check types obj))) \<and>
        (verifyPayloadAgainstTypeDefinition check types q' = Inr () \<longleftrightarrow>
           (\<exists>obj. payloadObject q' = Some obj \<and> check types obj)) \<and>
        (\<forall>e. verifyPayloadAgainstTypeDefinition check types q' = Inl e \<longrightarrow> code e = 400)"
    using decoding_never_raises [of asciiString digitJSON ?q]
    by (elim exE conjE) (rule that; assumption)
  have prem1: "payload ?q = Some [0x31] \<and> asciiString [0x31] = Some ''1'' \<and>
      digitJSON ''1'' = Some 1"
    using p1 t1 j1 by simp
  have cached: "q' = ?q\<lparr>payloadObject := Some 1\<rparr>"
    using decoded [rule_format, OF prem1] .
  have "verifyPayloadAgainstTypeDefinition sameNumber 1 q' = Inr () \<longleftrightarrow>
           (\<exists>obj. payloadObject q' = Some obj \<and> sameNumber 1 obj)"
    using shape1 [rule_format, of sameNumber 1] by (rule conjunct2 [THEN conjunct1])
  then have good: "verifyPayloadAgainstTypeDefinition sameNumber 1
      (?q\<lparr>payloadObject := Some 1\<rparr>) = Inr ()"
    using cached by (simp add: sameNumber_def)
  show ?thesis
    using p t j c ret same bad p1 t1 j1 ret1 cached good by simp
qed

subsection \<open>Declared content length\<close>




text \<open>
  C10, as stated, fails for the same reason: with an allow-list and no \<^verbatim>\<open>content-type\<close>
  header, a request whose \<^verbatim>\<open>content-length\<close> header does not parse is rejected with
  status 415 by the executor and no listener is registered, so the ingestion does not go on
  to the streaming enforcement.
\<close>

theorem unparsable_length_counterexample:
  "sizeLimit (jsonPolicy PAYLOAD (Some 1024)) = Some 1024 \<and>
   headers (requestWith [(''content-length'', ''abc'')]) ''content-length'' = Some ''abc'' \<and>
   parseInt ''abc'' = None \<and>
   executor (jsonPolicy PAYLOAD (Some 1024)) (requestWith [(''content-length'', ''abc'')])
       [] Map.empty =
     Some \<lparr>request = requestWith [(''content-length'', ''abc'')],
           promise = Rejected (mkHError 415
             ''File incorrect format. Set correct 'content-type'. Valid types are application/json.''),
           files = Map.empty, listeners = NoListeners, entropy = []\<rparr>"
  by (simp add: example_defs check_defs executor_def mkHError_def)

lemma checkContentType_headers:
  "hs ''content-type'' = headers req ''content-type'' \<Longrightarrow>
     checkContentType m (req\<lparr>headers := hs\<rparr>) = checkContentType m req"
  by (cases "allowedExtensions m") (simp_all add: checkContentType_def)

lemma handleRequest_as_if_absent:
  assumes t: "checkContentType m req' = checkContentType m req"
    and l: "checkContentLength m req' = checkContentLength m req"
    and r: "req = req'\<lparr>headers := headers req\<rparr>"
  shows "handleRequest m req rnd fs chunks =
     map_option (\<lambda>st. st\<lparr>request := (request st)\<lparr>headers := headers req\<rparr>\<rparr>)
       (handleRequest m req' rnd fs chunks)"
proof -
  consider (rej) e where "checkContentType m req = Some e \<or>
        (checkContentType m req = None \<and> checkContentLength m req = Some e)"
    | (buf) "checkContentType m req = None" "checkContentLength m req = None"
        "location m = PAYLOAD"
    | (str) "checkContentType m req = None" "checkContentLength m req = None"
        "location m = STREAM"
    using checks_cases [of m req] by (cases "location m") auto
  then show ?thesis
  proof cases
    case rej
    have rej': "checkContentType m req' = Some e \<or>
        (checkContentType m req' = None \<and> checkContentLength m req' = Some e)"
      using rej t l by simp
    show ?thesis
      using r by (simp add: handleRequest_rejecting [OF rej] handleRequest_rejecting [OF rej'])
  next
    case buf
    have buf': "checkContentType m req' = None" "checkContentLength m req' = None"
      using buf t l by simp_all
    have "req\<lparr>payload := Some (concat chunks)\<rparr> =
        req'\<lparr>payload := Some (concat chunks), headers := headers req\<rparr>"
      by (subst r) simp
    then show ?thesis
      by (simp add: handleRequest_payload [OF buf] handleRequest_payload [OF buf' buf(3)])
  next
    case str
    have str': "checkContentType m req' = None" "checkContentLength m req' = None"
      using str t l by simp_all
    have "req\<lparr>payloadSteamPath := Some p\<rparr> =
        req'\<lparr>payloadSteamPath := Some p, headers := headers req\<rparr>" for p
      by (subst r) simp
    then show ?thesis
      by (simp add: handleRequest_stream [OF str] handleRequest_stream [OF str' str(3)]
          split: option.splits del: fun_upd_apply)
  qed
qed

text \<open>
  C10, amended. When the policy has a size limit and the \<^verbatim>\<open>content-length\<close> header is
  present but \<^verbatim>\<open>parseInt\<close> gives \<^verbatim>\<open>NaN\<close> for it, the declared-length check does not
  reject, and the call behaves as if the header were absent: the results with and without
  the header differ in the header mapping of the request only. When the request also
  passes the content-type check, the executor leaves the promise pending with the
  listeners of the streaming enforcement registered (in stream mode, once
  \<^verbatim>\<open>getNewFilePath\<close> has returned).
\<close>

theorem unparsable_length_skipped:
  assumes "sizeLimit m = Some limit"
    and "headers req ''content-length'' = Some s"
    and "parseInt s = None"
  shows "checkContentLength m req = None \<and>
         (\<forall>chunks. handleRequest m req rnd fs chunks =
            map_option (\<lambda>st. st\<lparr>request := (request st)\<lparr>headers := headers req\<rparr>\<rparr>)
              (handleRequest m (req\<lparr>headers := (headers req)(''content-length'' := None)\<rparr>)
                 rnd fs chunks)) \<and>
         (checkContentType m req = None \<longrightarrow>
            (location m = PAYLOAD \<longrightarrow>
               executor m req rnd fs =
                 Some \<lparr>request = req, promise = Pending, files = fs,
                       listeners = PayloadListeners [], entropy = rnd\<rparr>) \<and>
            (location m = STREAM \<longrightarrow>
               (\<forall>p rnd'. getNewFilePath fs rnd = Some (p, rnd') \<longrightarrow>
                  executor m req rnd fs =
                    Some \<lparr>request = req, promise = Pending, files = fs(p \<mapsto> []),
                          listeners = StreamListeners p 0 False, entropy = rnd'\<rparr>)))"
proof -
  let ?req' = "req\<lparr>headers := (headers req)(''content-length'' := None)\<rparr>"
  have skip: "checkContentLength m req = None"
    using assms by (simp add: checkContentLength_def)
  have skip': "checkContentLength m ?req' = None"
    by (simp add: checkContentLength_def split: option.splits)
  have t: "checkContentType m ?req' = checkContentType m req"
    by (rule checkContentType_headers) simp
  have r: "req = ?req'\<lparr>headers := headers req\<rparr>"
    by simp
  have same: "handleRequest m req rnd fs chunks =
      map_option (\<lambda>st. st\<lparr>request := (request st)\<lparr>headers := headers req\<rparr>\<rparr>)
        (handleRequest m ?req' rnd fs chunks)" for chunks
    using skip skip' by (intro handleRequest_as_if_absent t r) simp
  have goes_on: "checkContentType m req = None \<longrightarrow>
            (location m = PAYLOAD \<longrightarrow>
               executor m req rnd fs =
                 Some \<lparr>request = req, promise = Pending, files = fs,
                       listeners = PayloadListeners [], entropy = rnd\<rparr>) \<and>
            (location m = STREAM \<longrightarrow>
               (\<forall>p rnd'. getNewFilePath fs rnd = Some (p, rnd') \<longrightarrow>
                  executor m req rnd fs =
                    Some \<lparr>request = req, promise = Pending, files = fs(p \<mapsto> []),
                          listeners = StreamListeners p 0 False, entropy = rnd'\<rparr>))"
    using skip by (simp add: executor_payload executor_stream)
  show ?thesis
    using skip same goes_on by blast
qed

theorem unparsable_length_skipped_witness:
  "sizeLimit (openPolicy PAYLOAD (Some 4)) = Some 4 \<and>
   headers (requestWith [(''content-length'', ''abc'')]) ''content-length'' = Some ''abc'' \<and>
   parseInt ''abc'' = None \<and>
   checkContentType (openPolicy PAYLOAD (Some 4))
     (requestWith [(''content-length'', ''abc'')]) = None \<and>
   location (openPolicy PAYLOAD (Some 4)) = PAYLOAD \<and>
   checkContentLength (openPolicy PAYLOAD (Some 4))
     (requestWith [(''content-length'', ''abc'')]) = None \<and>
   executor (openPolicy PAYLOAD (Some 4)) (requestWith [(''content-length'', ''abc'')])
       [] Map.empty =
     Some \<lparr>request = requestWith [(''content-length'', ''abc'')], promise = Pending,
           files = Map.empty, listeners = PayloadListeners [], entropy = []\<rparr>"
proof -
  let ?m = "openPolicy PAYLOAD (Some 4)"
  let ?r = "requestWith [(''content-length'', ''abc'')]"
  have a: "sizeLimit ?m = Some 4"
    by (simp add: example_defs)
  have b: "headers ?r ''content-length'' = Some ''abc''"
    by (simp add: example_defs)
  have c: "parseInt ''abc'' = None"
    by (simp add: parseInt_def isWhiteSpace_def digitValue_def)
  have d: "checkContentType ?m ?r = None"
    by (simp add: example_defs checkContentType_def)
  have e: "location ?m = PAYLOAD"
    by (simp add: example_defs)
  show ?thesis
    using unparsable_length_skipped [OF a b c, of "[]" Map.empty] a b c d e
    by simp
qed

subsection \<open>Rejection in the middle of the stream\<close>

lemma received_append: "received (cs @ ds) = received cs + received ds"
  by (simp add: received_def)

lemma received_take_le: "received (take k cs) \<le> received cs"
proof -
  have "received cs = received (take k cs) + received (drop k cs)"
    by (simp add: received_append [symmetric])
  then show ?thesis
    using received_nonneg [of "drop k cs"] by simp
qed

lemma promiseAfter_cases:
  "promiseAfter m n Pending cs = Pending \<and> (cs = [] \<or> \<not> exceeds m (n + received cs)) \<or>
   promiseAfter m n Pending cs = Rejected (tooLarge (the (sizeLimit m))) \<and>
     cs \<noteq> [] \<and> exceeds m (n + received cs)"
proof (cases "cs = [] \<or> \<not> exceeds m (n + received cs)")
  case True
  then show ?thesis
    using promiseAfter_within [of m n cs] by auto
next
  case False
  then show ?thesis
    using promiseAfter_beyond [of cs m n] by auto
qed

text \<open>
  C1, as stated, fails: the source never deletes a file. In stream mode with a limit of 4
  bytes and the chunks \<open>[1, 2, 3]\<close> and \<open>[4, 5]\<close>, the promise is rejected with status 413 at
  the second chunk, and the file at the generated path exists then, holding the five
  bytes, and still exists after the end of the stream.
\<close>

theorem rejected_stream_file_counterexample:
  "getNewFilePath Map.empty [drawB] = Some (''/tmp/deadbeef00010203'', []) \<and>
   afterChunks (openPolicy STREAM (Some 4)) (requestWith []) [drawB] Map.empty
       [[1, 2, 3], [4, 5]] =
     Some \<lparr>request = requestWith [], promise = Rejected (tooLarge 4),
           files = [''/tmp/deadbeef00010203'' \<mapsto> [1, 2, 3, 4, 5]],
           listeners = StreamListeners ''/tmp/deadbeef00010203'' 5 False, entropy = []\<rparr> \<and>
   handleRequest (openPolicy STREAM (Some 4)) (requestWith []) [drawB] Map.empty
       [[1, 2, 3], [4, 5]] =
     Some \<lparr>request = (requestWith [])\<lparr>payloadSteamPath := Some ''/tmp/deadbeef00010203''\<rparr>,
           promise = Rejected (tooLarge 4),
           files = [''/tmp/deadbeef00010203'' \<mapsto> [1, 2, 3, 4, 5]],
           listeners = StreamListeners ''/tmp/deadbeef00010203'' 5 True, entropy = []\<rparr> \<and>
   code (tooLarge 4) = 413"
  by (simp add: example_defs checkContentType_def checkContentLength_def handleRequest_def
      afterChunks_def executor_def onData_def onEnd_def limitCheck_def createWriteStream_def
      writeChunk_def existsSync_def tmpPath_def toHex_def hexDigit_def
      setPayloadStreamPath_def)

text \<open>
  C1, amended. A stream-mode call whose promise is rejected either was rejected by the
  executor (content-type or declared-length check), and then no temporary file was created
  and the file system is as it was; or it was rejected with status 413 because the running
  total went over the size limit, and then the temporary file is not deleted: after the
  call the file at the generated path, which did not exist before, exists and holds the
  chunks of the stream.
\<close>

theorem rejected_stream_keeps_file:
  assumes "location m = STREAM"
    and "handleRequest m req rnd fs chunks = Some st"
    and "promise st = Rejected e"
  shows "(listeners st = NoListeners \<and> files st = fs \<and>
            (checkContentType m req = Some e \<or> checkContentLength m req = Some e)) \<or>
         (\<exists>p rnd'. getNewFilePath fs rnd = Some (p, rnd') \<and> fs p = None \<and>
            code e = 413 \<and> exceeds m (received chunks) \<and>
            files st = fs(p \<mapsto> concat chunks))"
proof -
  consider (rej) e' where "checkContentType m req = Some e' \<or>
        (checkContentType m req = None \<and> checkContentLength m req = Some e')"
    | (str) "checkContentType m req = None" "checkContentLength m req = None"
    using checks_cases [of m req] by auto
  then show ?thesis
  proof cases
    case rej
    have "st = \<lparr>request = req, promise = Rejected e', files = fs, listeners = NoListeners,
           entropy = rnd\<rparr>"
      using assms(2) handleRequest_rejecting [OF rej, of rnd fs chunks] by simp
    then show ?thesis
      using rej assms(3) by auto
  next
    case str
    have run: "handleRequest m req rnd fs chunks =
     (case getNewFilePath fs rnd of
        None \<Rightarrow> None
      | Some (p, rnd') \<Rightarrow>
          Some \<lparr>request = req\<lparr>payloadSteamPath := Some p\<rparr>,
                promise = resolve (promiseAfter m 0 Pending chunks),
                files = fs(p \<mapsto> concat chunks),
                listeners = StreamListeners p (received chunks) True, entropy = rnd'\<rparr>)"
      by (rule handleRequest_stream [OF str assms(1)])
    then obtain p rnd' where g: "getNewFilePath fs rnd = Some (p, rnd')"
      using assms(2) by (cases "getNewFilePath fs rnd") auto
    have st: "st = \<lparr>request = req\<lparr>payloadSteamPath := Some p\<rparr>,
                promise = resolve (promiseAfter m 0 Pending chunks),
                files = fs(p \<mapsto> concat chunks),
                listeners = StreamListeners p (received chunks) True, entropy = rnd'\<rparr>"
      using run g assms(2) by simp
    have fresh: "fs p = None"
      using getNewFilePath_Some [OF g] by (auto simp: existsSync_def)
    have pr: "resolve (promiseAfter m 0 Pending chunks) = Rejected e"
      using st assms(3) by simp
    have "promiseAfter m 0 Pending chunks = Rejected (tooLarge (the (sizeLimit m))) \<and>
        exceeds m (received chunks)"
      using promiseAfter_cases [of m 0 chunks] pr by auto
    then have "code e = 413 \<and> exceeds m (received chunks)"
      using pr by auto
    then show ?thesis
      using g fresh st by simp
  qed
qed

theorem rejected_stream_keeps_file_witness:
  "location (openPolicy STREAM (Some 4)) = STREAM \<and>
   handleRequest (openPolicy STREAM (Some 4)) (requestWith []) [drawA, drawB]
       [''/tmp/0000000000000001'' \<mapsto> bodyA1] [[1, 2, 3], [4, 5]] =
     Some \<lparr>request = (requestWith [])\<lparr>payloadSteamPath := Some ''/tmp/deadbeef00010203''\<rparr>,
           promise = Rejected (tooLarge 4),
           files = [''/tmp/0000000000000001'' \<mapsto> bodyA1,
                    ''/tmp/deadbeef00010203'' \<mapsto> [1, 2, 3, 4, 5]],
           listeners = StreamListeners ''/tmp/deadbeef00010203'' 5 True, entropy = []\<rparr> \<and>
   [''/tmp/0000000000000001'' \<mapsto> bodyA1] ''/tmp/deadbeef00010203'' = None \<and>
   code (tooLarge 4) = 413 \<and>
   exceeds (openPolicy STREAM (Some 4)) (received [[1, 2, 3], [4, 5]])"
proof -
  let ?m = "openPolicy STREAM (Some 4)"
  let ?fs = "[''/tmp/0000000000000001'' \<mapsto> bodyA1]"
  let ?st = "\<lparr>request = (requestWith [])\<lparr>payloadSteamPath := Some ''/tmp/deadbeef00010203''\<rparr>,
           promise = Rejected (tooLarge 4),
           files = [''/tmp/0000000000000001'' \<mapsto> bodyA1,
                    ''/tmp/deadbeef00010203'' \<mapsto> [1, 2, 3, 4, 5]],
           listeners = StreamListeners ''/tmp/deadbeef00010203'' 5 True, entropy = []\<rparr>"
  have a: "location ?m = STREAM"
    by (simp add: example_defs)
  have b: "handleRequest ?m (requestWith []) [drawA, drawB] ?fs [[1, 2, 3], [4, 5]] = Some ?st"
    by (simp add: example_defs checkContentType_def checkContentLength_def handleRequest_def
      afterChunks_def executor_def onData_def onEnd_def limitCheck_def createWriteStream_def
      writeChunk_def existsSync_def tmpPath_def toHex_def hexDigit_def
      setPayloadStreamPath_def)
  have c: "promise ?st = Rejected (tooLarge 4)"
    by simp
  have g: "getNewFilePath ?fs [drawA, drawB] = Some (''/tmp/deadbeef00010203'', [])"
    by (simp add: example_defs existsSync_def tmpPath_def toHex_def hexDigit_def)
  have "?fs ''/tmp/deadbeef00010203'' = None \<and> code (tooLarge 4) = 413 \<and>
      exceeds ?m (received [[1, 2, 3], [4, 5]])"
    using rejected_stream_keeps_file [OF a b c] g by auto
  then show ?thesis
    using a b by simp
qed

text \<open>
  C2, as stated, fails: the rejection does not discard the buffer and does not remove the
  \<^verbatim>\<open>"end"\<close> listener. In buffer mode with a limit of 1024 bytes and chunks of 512, 512
  and 1 bytes, the promise is rejected with status 413 at the third chunk, and at the end
  of the stream the 1025 bytes are set as the payload of the request.
\<close>

theorem buffer_beyond_ceiling_counterexample:
  "handleRequest (openPolicy PAYLOAD (Some 1024)) (requestWith []) [] Map.empty
       [replicate 512 0, replicate 512 0, [0]] =
     Some \<lparr>request = (requestWith [])
                 \<lparr>payload := Some (replicate 512 0 @ replicate 512 0 @ [0])\<rparr>,
           promise = Rejected (tooLarge 1024), files = Map.empty,
           listeners = PayloadListeners (replicate 512 0 @ replicate 512 0 @ [0]),
           entropy = []\<rparr> \<and>
   length (replicate 512 (0 :: 8 word) @ replicate 512 0 @ [0]) = 1025 \<and>
   code (tooLarge 1024) = 413"
  by (simp add: example_defs checkContentType_def checkContentLength_def handleRequest_def
      afterChunks_def executor_def onData_def onEnd_def limitCheck_def setPayload_def)

text \<open>
  C2, amended. In buffer mode, when the request passes the content-type check and the
  declared-length check, the policy has a size limit, and the running total of the chunk
  lengths is over the limit after some chunk, the promise is rejected with status 413 at
  the first such chunk, and at that moment the request is as it was (no payload has been
  set). The buffer is not discarded: the later chunks are still appended, and at the end
  of the stream the concatenation of all the chunks is set as the payload of the request,
  the promise staying rejected.
\<close>

theorem buffer_beyond_ceiling:
  assumes "location m = PAYLOAD"
    and "checkContentType m req = None"
    and "checkContentLength m req = None"
    and "sizeLimit m = Some limit"
    and "1 \<le> k" and "k \<le> length chunks"
    and "limit < received (take k chunks)"
  shows "code (tooLarge limit) = 413 \<and>
         (\<exists>j. 1 \<le> j \<and> j \<le> k \<and>
            afterChunks m req rnd fs (take (j - 1) chunks) =
              Some \<lparr>request = req, promise = Pending, files = fs,
                    listeners = PayloadListeners (concat (take (j - 1) chunks)),
                    entropy = rnd\<rparr> \<and>
            afterChunks m req rnd fs (take j chunks) =
              Some \<lparr>request = req, promise = Rejected (tooLarge limit), files = fs,
                    listeners = PayloadListeners (concat (take j chunks)),
                    entropy = rnd\<rparr>) \<and>
         handleRequest m req rnd fs chunks =
           Some \<lparr>request = req\<lparr>payload := Some (concat chunks)\<rparr>,
                 promise = Rejected (tooLarge limit), files = fs,
                 listeners = PayloadListeners (concat chunks), entropy = rnd\<rparr>"
proof -
  define over where "over j \<longleftrightarrow> 1 \<le> j \<and> exceeds m (received (take j chunks))" for j
  define j where "j = (LEAST j. over j)"
  have lim: "the (sizeLimit m) = limit"
    using assms(4) by simp
  have ex: "exceeds m n \<longleftrightarrow> limit < n" for n
    using assms(4) by (simp add: exceeds_def)
  have "over k"
    using assms(5,7) by (simp add: over_def ex)
  then have oj: "over j" and jk: "j \<le> k"
    unfolding j_def by (rule LeastI, rule Least_le)
  have j1: "1 \<le> j" and exj: "exceeds m (0 + received (take j chunks))"
    using oj by (simp_all add: over_def)
  have nej: "take j chunks \<noteq> []"
    using j1 jk assms(6) by (cases chunks) auto
  have "\<not> over (j - 1)"
    unfolding j_def using j1 not_less_Least [of "j - 1" over] j_def by simp
  then have before: "take (j - 1) chunks = [] \<or>
      \<not> exceeds m (0 + received (take (j - 1) chunks))"
    by (cases "j - 1") (auto simp: over_def)
  have pb: "promiseAfter m 0 Pending (take (j - 1) chunks) = Pending"
    using before promiseAfter_within [of m 0 "take (j - 1) chunks"] by auto
  have pj: "promiseAfter m 0 Pending (take j chunks) = Rejected (tooLarge limit)"
    using promiseAfter_beyond [OF nej exj] lim by simp
  have ne: "chunks \<noteq> []"
    using nej by auto
  have "exceeds m (0 + received chunks)"
    using exj received_take_le [of j chunks] exceeds_mono by fastforce
  then have pa: "promiseAfter m 0 Pending chunks = Rejected (tooLarge limit)"
    using promiseAfter_beyond [OF ne] lim by simp
  have first: "1 \<le> j \<and> j \<le> k \<and>
            afterChunks m req rnd fs (take (j - 1) chunks) =
              Some \<lparr>request = req, promise = Pending, files = fs,
                    listeners = PayloadListeners (concat (take (j - 1) chunks)),
                    entropy = rnd\<rparr> \<and>
            afterChunks m req rnd fs (take j chunks) =
              Some \<lparr>request = req, promise = Rejected (tooLarge limit), files = fs,
                    listeners = PayloadListeners (concat (take j chunks)),
                    entropy = rnd\<rparr>"
    using j1 jk pb pj
    by (simp add: afterChunks_payload [OF assms(2) assms(3) assms(1)])
  have final: "handleRequest m req rnd fs chunks =
           Some \<lparr>request = req\<lparr>payload := Some (concat chunks)\<rparr>,
                 promise = Rejected (tooLarge limit), files = fs,
                 listeners = PayloadListeners (concat chunks), entropy = rnd\<rparr>"
    using pa by (simp add: handleRequest_payload [OF assms(2) assms(3) assms(1)])
  show ?thesis
    using first final by (intro conjI exI [of _ j]) simp_all
qed

theorem buffer_beyond_ceiling_witness:
  "location (openPolicy PAYLOAD (Some 4)) = PAYLOAD \<and>
   checkContentType (openPolicy PAYLOAD (Some 4)) (requestWith []) = None \<and>
   checkContentLength (openPolicy PAYLOAD (Some 4)) (requestWith []) = None \<and>
   sizeLimit (openPolicy PAYLOAD (Some 4)) = Some 4 \<and>
   (1 :: nat) \<le> 2 \<and> 2 \<le> length [[1, 2, 3], [4, 5], [6 :: 8 word]] \<and>
   4 < received (take 2 [[1, 2, 3], [4, 5], [6]]) \<and>
   handleRequest (openPolicy PAYLOAD (Some 4)) (requestWith []) [] Map.empty
       [[1, 2, 3], [4, 5], [6]] =
     Some \<lparr>request = (requestWith [])\<lparr>payload := Some [1, 2, 3, 4, 5, 6]\<rparr>,
           promise = Rejected (tooLarge 4), files = Map.empty,
           listeners = PayloadListeners [1, 2, 3, 4, 5, 6], entropy = []\<rparr>"
proof -
  let ?m = "openPolicy PAYLOAD (Some 4)"
  have a: "location ?m = PAYLOAD"
    by (simp add: example_defs)
  have b: "checkContentType ?m (requestWith []) = None"
    by (simp add: example_defs checkContentType_def)
  have c: "checkContentLength ?m (requestWith []) = None"
    by (simp add: example_defs checkContentLength_def)
  have d: "sizeLimit ?m = Some 4"
    by (simp add: example_defs)
  have e: "(1 :: nat) \<le> 2"
    by simp
  have f: "2 \<le> length [[1, 2, 3], [4, 5], [6 :: 8 word]]"
    by simp
  have g: "4 < received (take 2 [[1, 2, 3], [4, 5], [6]])"
    by (simp add: received_def)
  show ?thesis
    using buffer_beyond_ceiling [OF a b c d e f g, of "[]" Map.empty] a b c d e f g
    by simp
qed








end
